theory Spec2Isabelle
  imports Main
begin

section \<open>Data model of \<^verbatim>\<open>src/trace.ts\<close>\<close>

text \<open>
  JavaScript numbers that the tracer handles (line and column numbers, program counters,
  gas) are integers; they are modelled as \<open>int\<close>. JavaScript strings are \<open>string\<close>,
  one \<open>char\<close> per code unit.
\<close>

text \<open>
  A receipt field that may hold a string, \<^verbatim>\<open>null\<close> or \<^verbatim>\<open>undefined\<close>
  (\<^verbatim>\<open>contractAddress\<close>, \<^verbatim>\<open>to\<close>).
\<close>

datatype jsval = Undefined | Null | Str string

text \<open>Truthiness, as \<^verbatim>\<open>||\<close> tests it: \<^verbatim>\<open>null\<close>, \<^verbatim>\<open>undefined\<close> and \<^verbatim>\<open>''\<close> are falsy.\<close>

fun truthy :: "jsval \<Rightarrow> bool" where
  "truthy Undefined = False"
| "truthy Null = False"
| "truthy (Str s) = (s \<noteq> [])"

text \<open>What a template literal \<^verbatim>\<open>`${v}`\<close> prints for such a value.\<close>

fun to_string :: "jsval \<Rightarrow> string" where
  "to_string Undefined = ''undefined''"
| "to_string Null = ''null''"
| "to_string (Str s) = s"

text \<open>What a thrown value is: a \<^verbatim>\<open>TypeError\<close> of the runtime for a property read
  on \<^verbatim>\<open>undefined\<close> (it carries the property's name), or an \<^verbatim>\<open>Error\<close> with
  a message (line 114, and whatever a collaborator rejects with).\<close>

datatype failure = TypeError string | Error string

record Position =
  line :: int
  column :: int

record Location =
  start :: Position
  end' :: Position

text \<open>An entry of the program-counter table (\<^verbatim>\<open>offset\<close> in the source).\<close>

record SourceRange =
  fileName :: string
  location :: Location

record StructLog =
  depth :: int
  error :: string
  gas :: int
  gasCost :: int
  memory :: "string list option"
  op :: string
  pc :: int
  stack :: "string list"
  storage :: "(string \<times> string) list"
  source :: "string option"
  sourceLine :: "string option"
  desc :: "string option"
  lastDesc :: "string option"
  sha :: string
  show' :: "nat option"

record InversionItem =
  operation :: string
  inputs :: "string list"

type_synonym InversionMap = "(string \<times> InversionItem list) list"

record TraceInfo =
  lastLog :: "StructLog option"
  inv' :: InversionMap

record Trace =
  trace_gas :: int
  returnValue :: string
  structLogs :: "StructLog list"

section \<open>Strings and slices of JavaScript\<close>

text \<open>
  \<^verbatim>\<open>Array.prototype.slice\<close> and \<^verbatim>\<open>String.prototype.slice\<close> on integer
  arguments: a negative index counts from the end, every index is clamped to the length,
  and an end before the start gives the empty slice.
\<close>

definition js_index :: "nat \<Rightarrow> int \<Rightarrow> nat" where
  "js_index len k = (if k < 0 then nat (max (int len + k) 0) else min (nat k) len)"

definition slice :: "'a list \<Rightarrow> int \<Rightarrow> int \<Rightarrow> 'a list" where
  "slice xs s e =
     (let from = js_index (length xs) s; upto = js_index (length xs) e
      in take (upto - from) (drop from xs))"

text \<open>\<^verbatim>\<open>xs.slice(s)\<close>: to the end.\<close>

definition slice_from :: "'a list \<Rightarrow> int \<Rightarrow> 'a list" where
  "slice_from xs s = drop (js_index (length xs) s) xs"

text \<open>Decimal printing of an integer, as a template literal does it.\<close>

definition digit_char :: "nat \<Rightarrow> char" where
  "digit_char d = ''0123456789'' ! d"

function nat_to_string :: "nat \<Rightarrow> string" where
  "nat_to_string n =
     (if n < 10 then [digit_char n] else nat_to_string (n div 10) @ [digit_char (n mod 10)])"
  by pat_completeness auto
termination
  by (relation "measure (\<lambda>n. n)") auto

declare nat_to_string.simps [simp del]

definition number_to_string :: "int \<Rightarrow> string" where
  "number_to_string k =
     (if k < 0 then ''-'' @ nat_to_string (nat (- k)) else nat_to_string (nat k))"

text \<open>\<^verbatim>\<open>s.split("\n")\<close>: the pieces between line feeds; the empty string gives one empty piece.\<close>

fun split_lines :: "string \<Rightarrow> string list" where
  "split_lines [] = [[]]"
| "split_lines (c # cs) =
     (if c = CHR 0x0A then [] # split_lines cs
      else (case split_lines cs of [] \<Rightarrow> [[c]] | l # ls \<Rightarrow> (c # l) # ls))"

section \<open>\<^verbatim>\<open>getSource\<close> (lines 66 to 96)\<close>

text \<open>
  The highlighter \<^verbatim>\<open>chalk.blueBright\<close> is a library function; it is the parameter
  \<open>color\<close>. The body of the \<^verbatim>\<open>reduce\<close> callback is \<open>excerpt_step\<close>, with the
  array's length, the two columns and the highlighter it closes over.
\<close>

definition excerpt_step ::
  "(string \<Rightarrow> string) \<Rightarrow> nat \<Rightarrow> int \<Rightarrow> int \<Rightarrow> string \<Rightarrow> nat \<times> string \<Rightarrow> string" where
  "excerpt_step color len startCol endCol result il =
     (let i = fst il; ln = snd il; first = (i = 0); last = (int i = int len - 1) in
      if first \<and> last then
        result @ slice ln 0 startCol @ color (slice ln startCol endCol) @ slice_from ln endCol
      else if first then result @ slice ln 0 startCol @ color (slice_from ln startCol)
      else if last then result @ color (slice ln 0 endCol) @ slice_from ln endCol
      else result @ color ln)"

text \<open>
  The result is the pair (\<^verbatim>\<open>source\<close>, \<^verbatim>\<open>sourceLine\<close>). The caller passes
  \<^verbatim>\<open>inverted[offset.fileName]\<close>, which is \<^verbatim>\<open>undefined\<close> for a file name the
  index does not have: then \<^verbatim>\<open>sourceFile.slice\<close> on line 67 throws.
\<close>

definition getSource ::
  "(string \<Rightarrow> string) \<Rightarrow> SourceRange \<Rightarrow> string list option \<Rightarrow> failure + string \<times> string" where
  "getSource color offset sourceFile =
     (case sourceFile of
        None \<Rightarrow> Inl (TypeError ''slice'')
      | Some file \<Rightarrow>
          (let lines = slice file (line (start (location offset)) - 1)
                         (line (end' (location offset)));
               startCol = column (start (location offset));
               endCol = column (end' (location offset));
               label =
                 (if line (start (location offset)) = line (end' (location offset)) then
                    fileName offset @ '':'' @ number_to_string (line (start (location offset)))
                    @ ''['' @ number_to_string (column (start (location offset)))
                    @ ''-'' @ number_to_string (column (end' (location offset))) @ '']''
                  else
                    fileName offset @ '':'' @ number_to_string (line (start (location offset)))
                    @ ''['' @ number_to_string (column (start (location offset)))
                    @ '']-'' @ number_to_string (line (end' (location offset)))
                    @ ''['' @ number_to_string (column (end' (location offset))) @ '']'');
               excerpt =
                 foldl (excerpt_step color (length lines) startCol endCol) []
                   (zip [0 ..< length lines] lines)
           in Inr (excerpt, label)))"

text \<open>A range, written as the source's object literal would be.\<close>

definition mk_range :: "string \<Rightarrow> int \<Rightarrow> int \<Rightarrow> int \<Rightarrow> int \<Rightarrow> SourceRange" where
  "mk_range f l1 c1 l2 c2 =
     \<lparr>fileName = f,
      location = \<lparr>start = \<lparr>line = l1, column = c1\<rparr>, end' = \<lparr>line = l2, column = c2\<rparr>\<rparr>\<rparr>"

section \<open>Collaborators, events and failures\<close>

text \<open>Artifact metadata, as the trace collector returns it. Both tables are objects keyed by
  source id; they are kept as their entry lists, in \<^verbatim>\<open>Object.entries\<close> order.\<close>

record ContractData =
  sourceMap :: string
  sourceMapRuntime :: string
  sourceCodes :: "(string \<times> string) list"
  sources :: "(string \<times> string) list"

record TransactionReceipt =
  contractAddress :: jsval
  to :: jsval
  transactionHash :: string

text \<open>The two tables of a call are objects read by key; a key the object does not have
  reads as \<^verbatim>\<open>undefined\<close>, here \<open>None\<close>.\<close>

type_synonym pc_table = "int \<Rightarrow> SourceRange option"
type_synonym line_index = "string \<Rightarrow> string list option"
type_synonym collector = "jsval \<Rightarrow> string \<Rightarrow> bool \<Rightarrow> failure + ContractData option"

text \<open>
  Every call that leaves the tracer is recorded, with its arguments, in the order the
  calls are made.
\<close>

datatype event =
    GetCode jsval
  | GetContractData jsval string bool
  | ParseSourceMap "(string \<times> string) list" string string "(string \<times> string) list"
  | TraceTransaction string
  | OnTrace "Trace option"
  | ExecLog StructLog TraceInfo
  | Exec "StructLog list" TraceInfo

text \<open>
  The functions the tracer imports or reaches through \<^verbatim>\<open>network_config\<close>, each
  with what it answers. \<open>debug_traceTransaction\<close> answers the \<^verbatim>\<open>result\<close> field of
  the RPC response (\<open>None\<close> when the response has none); \<open>settle\<close> gives the time at
  which the i-th per-step invocation settles.
\<close>

record env =
  getCode :: "jsval \<Rightarrow> failure + string"
  parseSourceMap ::
    "(string \<times> string) list \<Rightarrow> string \<Rightarrow> string \<Rightarrow> (string \<times> string) list
       \<Rightarrow> failure + pc_table"
  stripHexPrefix :: "string \<Rightarrow> string"
  debug_traceTransaction :: "string \<Rightarrow> failure + Trace option"
  augmentLogs ::
    "StructLog list \<Rightarrow> (string \<times> string) list \<Rightarrow> failure + StructLog list \<times> TraceInfo"
  color :: "string \<Rightarrow> string"
  settle :: "nat \<Rightarrow> nat"

text \<open>
  What a call of the per-step handler does: it throws before it returns, or it returns a
  promise, which resolves (\<open>None\<close>) or rejects with a reason. Every promise is taken to
  settle.
\<close>

datatype invocation = Throws failure | Returns "failure option"

text \<open>
  The observer and the batch handler are called once and awaited on the spot, so a throw
  and a rejection both end the call with their reason: \<open>Some e\<close> stands for either,
  \<open>None\<close> for a promise that resolves. The filter predicates are total: they answer
  for every step and do not throw.
\<close>

record TraceOptions =
  constants :: "(string \<times> string) list option"
  onTrace :: "(Trace option \<Rightarrow> failure option) option"
  preFilter :: "(StructLog \<Rightarrow> bool) option"
  postFilter :: "(StructLog \<Rightarrow> bool) option"
  execLog :: "(StructLog \<Rightarrow> TraceInfo \<Rightarrow> invocation) option"
  exec :: "(StructLog list \<Rightarrow> TraceInfo \<Rightarrow> failure option) option"

text \<open>An asynchronous computation of the tracer: its result or the failure that ended it,
  and the calls it made.\<close>

type_synonym 'a action = "(failure + 'a) \<times> event list"

definition ret :: "'a \<Rightarrow> 'a action" where
  "ret x = (Inr x, [])"

definition throw :: "failure \<Rightarrow> 'a action" where
  "throw e = (Inl e, [])"

definition lift :: "failure + 'a \<Rightarrow> 'a action" where
  "lift r = (r, [])"

definition call :: "event \<Rightarrow> failure + 'a \<Rightarrow> 'a action" where
  "call ev r = (r, [ev])"

definition settled :: "failure option \<Rightarrow> failure + unit" where
  "settled r = (case r of None \<Rightarrow> Inr () | Some e \<Rightarrow> Inl e)"

definition bindE :: "'a action \<Rightarrow> ('a \<Rightarrow> 'b action) \<Rightarrow> 'b action" where
  "bindE m f =
     (case fst m of
        Inl e \<Rightarrow> (Inl e, snd m)
      | Inr x \<Rightarrow> (fst (f x), snd m @ snd (f x)))"


text \<open>
  \<^verbatim>\<open>Promise.all\<close>: it rejects with the reason of the promise that rejects first in
  time, and resolves when none rejects. \<open>rejections\<close> pairs each rejected promise's index
  with its reason; the stable sort by settle time puts the earliest first.
\<close>

definition rejections :: "failure option list \<Rightarrow> (nat \<times> failure) list" where
  "rejections rs =
     concat (map (\<lambda>ir. case snd ir of None \<Rightarrow> [] | Some e \<Rightarrow> [(fst ir, e)])
               (zip [0 ..< length rs] rs))"

definition promise_all :: "(nat \<Rightarrow> nat) \<Rightarrow> failure option list \<Rightarrow> failure + unit" where
  "promise_all t rs =
     (case sort_key (\<lambda>ie. t (fst ie)) (rejections rs) of
        [] \<Rightarrow> Inr ()
      | ie # _ \<Rightarrow> Inl (snd ie))"

section \<open>\<^verbatim>\<open>buildTracer\<close> and \<^verbatim>\<open>trace\<close> (lines 98 to 163)\<close>

record ArtifactAdapter =
  collectContractsDataAsync :: "failure + ContractData list"
  newTraceCollector :: collector

record NetworkConfig =
  artifactAdapter :: "ArtifactAdapter option"

text \<open>The two variables the returned closure captures.\<close>

record tracer =
  contractsData :: "ContractData list option"
  traceCollector :: "collector option"

definition buildTracer :: "NetworkConfig \<Rightarrow> failure + tracer" where
  "buildTracer network_config =
     (case artifactAdapter network_config of
        None \<Rightarrow> Inr \<lparr>contractsData = None, traceCollector = None\<rparr>
      | Some adapter \<Rightarrow>
          (case collectContractsDataAsync adapter of
             Inl e \<Rightarrow> Inl e
           | Inr cds \<Rightarrow>
               Inr \<lparr>contractsData = Some cds, traceCollector = Some (newTraceCollector adapter)\<rparr>))"

text \<open>Lines 120 to 125: the file-name index, built entry by entry; a source id with no
  source text makes \<^verbatim>\<open>.split\<close> throw.\<close>

fun inverted_of ::
  "(string \<times> string) list \<Rightarrow> (string \<times> string) list \<Rightarrow> line_index \<Rightarrow> failure + line_index" where
  "inverted_of codes [] acc = Inr acc"
| "inverted_of codes (e # es) acc =
     (case map_of codes (fst e) of
        None \<Rightarrow> Inl (TypeError ''split'')
      | Some code \<Rightarrow> inverted_of codes es (acc(snd e \<mapsto> split_lines code)))"

text \<open>Lines 108 to 125, run when \<^verbatim>\<open>traceCollector\<close> is set.\<close>

definition resolveSource ::
  "env \<Rightarrow> collector \<Rightarrow> TransactionReceipt \<Rightarrow> (pc_table \<times> line_index) action" where
  "resolveSource E tc receipt =
     (let address = (if truthy (contractAddress receipt) then contractAddress receipt
                     else to receipt);
          isContractCreation = (contractAddress receipt \<noteq> Null)
      in
      bindE (call (GetCode address) (getCode E address)) (\<lambda>bytecode.
      bindE (call (GetContractData address bytecode isContractCreation)
               (tc address bytecode isContractCreation)) (\<lambda>contractData.
      case contractData of
        None \<Rightarrow>
          throw (Error (''Failed to find contract data for given bytecode at ''
                          @ to_string address))
      | Some cd \<Rightarrow>
          (let bytecodeHex = stripHexPrefix E bytecode;
               sm = (if isContractCreation then sourceMap cd else sourceMapRuntime cd)
           in
           bindE (call (ParseSourceMap (sourceCodes cd) sm bytecodeHex (sources cd))
                    (parseSourceMap E (sourceCodes cd) sm bytecodeHex (sources cd)))
             (\<lambda>pcToSourceRange.
           bindE (lift (inverted_of (sourceCodes cd) (sources cd) Map.empty)) (\<lambda>inverted.
           ret (pcToSourceRange, inverted)))))))"

text \<open>Lines 138 to 146: the callback of \<^verbatim>\<open>map\<close>, then the map itself, which stops
  at the first step whose callback throws.\<close>

definition injectOne :: "(string \<Rightarrow> string) \<Rightarrow> pc_table \<Rightarrow> line_index \<Rightarrow> StructLog \<Rightarrow> failure + StructLog" where
  "injectOne c pcToSourceRange inverted log =
     (case pcToSourceRange (pc log) of
        None \<Rightarrow> Inl (TypeError ''fileName'')
      | Some offset \<Rightarrow>
          (case getSource c offset (inverted (fileName offset)) of
             Inl e \<Rightarrow> Inl e
           | Inr sl \<Rightarrow> Inr (log\<lparr>source := Some (fst sl), sourceLine := Some (snd sl)\<rparr>)))"

fun injectSource :: "(string \<Rightarrow> string) \<Rightarrow> pc_table \<Rightarrow> line_index \<Rightarrow> StructLog list \<Rightarrow> failure + StructLog list" where
  "injectSource c pcToSourceRange inverted [] = Inr []"
| "injectSource c pcToSourceRange inverted (log # logs) =
     (case injectOne c pcToSourceRange inverted log of
        Inl e \<Rightarrow> Inl e
      | Inr log' \<Rightarrow>
          (case injectSource c pcToSourceRange inverted logs of
             Inl e \<Rightarrow> Inl e
           | Inr logs' \<Rightarrow> Inr (log' # logs')))"

text \<open>Lines 135 to 149: pre-filter, source injection when the tables exist, post-filter.\<close>

definition filterStages ::
  "(string \<Rightarrow> string) \<Rightarrow> (StructLog \<Rightarrow> bool) option \<Rightarrow> (pc_table \<times> line_index) option
     \<Rightarrow> (StructLog \<Rightarrow> bool) option \<Rightarrow> StructLog list \<Rightarrow> failure + StructLog list" where
  "filterStages c pre tables post augmentedLogs =
     (let filteredLogs = (case pre of None \<Rightarrow> augmentedLogs | Some p \<Rightarrow> filter p augmentedLogs)
      in
      case (case tables of
              None \<Rightarrow> Inr filteredLogs
            | Some ti \<Rightarrow> injectSource c (fst ti) (snd ti) filteredLogs) of
        Inl e \<Rightarrow> Inl e
      | Inr filteredLogs' \<Rightarrow>
          Inr (case post of None \<Rightarrow> filteredLogs' | Some p \<Rightarrow> filter p filteredLogs'))"

text \<open>Lines 106 to 149: everything before the handlers run. The result is the
  post-filtered sequence and the \<^verbatim>\<open>info\<close> of the augmentation.\<close>

definition prepare ::
  "env \<Rightarrow> tracer \<Rightarrow> TransactionReceipt \<Rightarrow> TraceOptions \<Rightarrow> (StructLog list \<times> TraceInfo) action" where
  "prepare E tr receipt traceOpts =
     bindE (case traceCollector tr of
              None \<Rightarrow> ret None
            | Some tc \<Rightarrow> bindE (resolveSource E tc receipt) (\<lambda>ti. ret (Some ti))) (\<lambda>tables.
     bindE (call (TraceTransaction (transactionHash receipt))
              (debug_traceTransaction E (transactionHash receipt))) (\<lambda>trace.
     bindE (case onTrace traceOpts of
              None \<Rightarrow> ret ()
            | Some f \<Rightarrow> call (OnTrace trace) (settled (f trace))) (\<lambda>_.
     case trace of
       None \<Rightarrow> throw (TypeError ''structLogs'')
     | Some t \<Rightarrow>
         bindE (lift (augmentLogs E (structLogs t)
                        (case constants traceOpts of None \<Rightarrow> [] | Some cs \<Rightarrow> cs)))
           (\<lambda>ai.
         bindE (lift (filterStages (color E) (preFilter traceOpts) tables
                        (postFilter traceOpts) (fst ai)))
           (\<lambda>postFilteredLogs. ret (postFilteredLogs, snd ai))))))"

text \<open>
  Line 154, \<^verbatim>\<open>postFilteredLogs.map((log) => execLog(log, info))\<close>: the handler is
  called on the steps in order, and the promises it returns are collected. A call that
  throws ends the \<^verbatim>\<open>map\<close> there: the steps after it are not reached, and the
  throw is the failure of \<^verbatim>\<open>trace\<close>.
\<close>

fun invokeAll ::
  "(StructLog \<Rightarrow> TraceInfo \<Rightarrow> invocation) \<Rightarrow> TraceInfo \<Rightarrow> StructLog list
     \<Rightarrow> failure option list action" where
  "invokeAll h info [] = (Inr [], [])"
| "invokeAll h info (log # logs) =
     (case h log info of
        Throws e \<Rightarrow> (Inl e, [ExecLog log info])
      | Returns p \<Rightarrow>
          (map_sum id (\<lambda>ps. p # ps) (fst (invokeAll h info logs)),
           ExecLog log info # snd (invokeAll h info logs)))"

text \<open>Lines 151 to 161: the per-step handler on the steps, its promises joined by
  \<^verbatim>\<open>Promise.all\<close>; the batch handler; the result.\<close>

definition dispatch ::
  "env \<Rightarrow> TraceOptions \<Rightarrow> StructLog list \<times> TraceInfo \<Rightarrow> StructLog list action" where
  "dispatch E traceOpts pi =
     (let postFilteredLogs = fst pi; info = snd pi in
      bindE (case execLog traceOpts of
               None \<Rightarrow> ret ()
             | Some h \<Rightarrow>
                 bindE (invokeAll h info postFilteredLogs) (\<lambda>promises.
                 lift (promise_all (settle E) promises))) (\<lambda>_.
      bindE (case exec traceOpts of
               None \<Rightarrow> ret ()
             | Some h \<Rightarrow>
                 call (Exec postFilteredLogs info) (settled (h postFilteredLogs info))) (\<lambda>_.
      ret postFilteredLogs)))"

text \<open>
  The closure \<^verbatim>\<open>trace\<close>. It assigns neither captured variable, so the tracer it
  leaves behind is the one it was called on.
\<close>

definition trace ::
  "env \<Rightarrow> tracer \<Rightarrow> TransactionReceipt \<Rightarrow> TraceOptions
     \<Rightarrow> ((failure + StructLog list) \<times> event list) \<times> tracer" where
  "trace E tr receipt traceOpts =
     (bindE (prepare E tr receipt traceOpts) (dispatch E traceOpts), tr)"

section \<open>Notions the properties are stated with\<close>

text \<open>The nine fields of a raw step.\<close>

definition rawFields ::
  "StructLog \<Rightarrow> int \<times> string \<times> int \<times> int \<times> string list option \<times> string \<times> int \<times> string list
     \<times> (string \<times> string) list" where
  "rawFields l =
     (depth l, error l, gas l, gasCost l, memory l, op l, pc l, stack l, storage l)"

text \<open>Lines \<open>l1\<close> to \<open>l2\<close> of a file, both included, counted from 1.\<close>

definition file_lines :: "string list \<Rightarrow> int \<Rightarrow> int \<Rightarrow> string list" where
  "file_lines file l1 l2 = map (\<lambda>k. file ! (k - 1)) [nat l1 ..< Suc (nat l2)]"

text \<open>Lines put together with a line feed between neighbours.\<close>

fun join_lines :: "string list \<Rightarrow> string" where
  "join_lines [] = []"
| "join_lines [l] = l"
| "join_lines (l # ls) = l @ [CHR 0x0A] @ join_lines ls"



fun is_Throws :: "invocation \<Rightarrow> bool" where
  "is_Throws (Throws e) = True"
| "is_Throws (Returns p) = False"

text \<open>The promise a call that returns hands back (for a call that throws, the reason).\<close>

fun promise_of :: "invocation \<Rightarrow> failure option" where
  "promise_of (Returns p) = p"
| "promise_of (Throws e) = Some e"

text \<open>The steps a per-step handler is called on: all of them, or, when a call throws,
  those up to and including the first on which it does.\<close>

definition invoked ::
  "(StructLog \<Rightarrow> TraceInfo \<Rightarrow> invocation) \<Rightarrow> TraceInfo \<Rightarrow> StructLog list \<Rightarrow> StructLog list" where
  "invoked h info logs =
     (case dropWhile (\<lambda>l. \<not> is_Throws (h l info)) logs of
        [] \<Rightarrow> logs
      | l # _ \<Rightarrow> takeWhile (\<lambda>l. \<not> is_Throws (h l info)) logs @ [l])"

text \<open>A highlighter that puts an escape character on each side of the slice.\<close>

definition esc_color :: "string \<Rightarrow> string" where
  "esc_color s = [CHR 0x1B] @ s @ [CHR 0x1B]"

text \<open>
  A highlighter that puts a slice between the ANSI escape sequences for a bright blue
  foreground and for the default foreground, \<^verbatim>\<open>ESC[94m\<close> and \<^verbatim>\<open>ESC[39m\<close>, as
  \<^verbatim>\<open>chalk.blueBright\<close> does with colours on; the empty slice stays empty.
\<close>

definition ansi_blueBright :: "string \<Rightarrow> string" where
  "ansi_blueBright s =
     (if s = [] then [] else [CHR 0x1B] @ ''[94m'' @ s @ [CHR 0x1B] @ ''[39m'')"

text \<open>
  Taking the colour codes out of a text: every escape sequence, from its escape character
  to the \<^verbatim>\<open>m\<close> that ends it, is dropped, and every other character is kept.
\<close>

fun strip_ansi :: "string \<Rightarrow> string" and skip_ansi :: "string \<Rightarrow> string" where
  "strip_ansi [] = []"
| "strip_ansi (ch # cs) = (if ch = CHR 0x1B then skip_ansi cs else ch # strip_ansi cs)"
| "skip_ansi [] = []"
| "skip_ansi (ch # cs) = (if ch = CHR ''m'' then strip_ansi cs else skip_ansi cs)"





section \<open>A small contract, its trace and its collaborators\<close>

definition demo_step :: "int \<Rightarrow> string \<Rightarrow> StructLog" where
  "demo_step k name =
     \<lparr>depth = 1, error = [], gas = 100, gasCost = 3, memory = None, op = name, pc = k,
      stack = [], storage = [], source = None, sourceLine = None, desc = None,
      lastDesc = None, sha = [], show' = None\<rparr>"

definition demo_file :: "string list" where
  "demo_file = [''contract A {'', ''  uint x;'']"

definition demo_data :: ContractData where
  "demo_data =
     \<lparr>sourceMap = ''0:10:0'', sourceMapRuntime = ''2:5:0'',
      sourceCodes = [(''0'', ''contract A {'' @ [CHR 0x0A] @ ''  uint x;'')],
      sources = [(''0'', ''A.sol'')]\<rparr>"

definition demo_table :: pc_table where
  "demo_table = [0 \<mapsto> mk_range ''A.sol'' 1 0 1 8, 2 \<mapsto> mk_range ''A.sol'' 1 9 2 6]"

definition demo_index :: line_index where
  "demo_index = [''A.sol'' \<mapsto> demo_file]"

definition demo_info :: TraceInfo where
  "demo_info = \<lparr>lastLog = None, inv' = []\<rparr>"

definition demo_trace :: Trace where
  "demo_trace =
     \<lparr>trace_gas = 21000, returnValue = [],
      structLogs = [demo_step 0 ''PUSH1'', demo_step 1 ''JUMPDEST'', demo_step 2 ''SSTORE'']\<rparr>"

definition demo_env :: env where
  "demo_env =
     \<lparr>getCode = (\<lambda>a. Inr ''0x6001''),
      parseSourceMap = (\<lambda>codes sm hex srcs. Inr demo_table),
      stripHexPrefix = (\<lambda>s. if take 2 s = ''0x'' then drop 2 s else s),
      debug_traceTransaction = (\<lambda>h. Inr (Some demo_trace)),
      augmentLogs = (\<lambda>logs cs. Inr (logs, demo_info)),
      color = esc_color,
      settle = (\<lambda>i. 10 - i)\<rparr>"

text \<open>A collector that knows the contract, and one that does not.\<close>

definition demo_collector :: collector where
  "demo_collector a b c = Inr (Some demo_data)"

definition blind_collector :: collector where
  "blind_collector a b c = Inr None"

definition demo_tracer :: tracer where
  "demo_tracer = \<lparr>contractsData = Some [demo_data], traceCollector = Some demo_collector\<rparr>"

definition blind_tracer :: tracer where
  "blind_tracer = \<lparr>contractsData = Some [], traceCollector = Some blind_collector\<rparr>"

definition plain_tracer :: tracer where
  "plain_tracer = \<lparr>contractsData = None, traceCollector = None\<rparr>"

definition demo_receipt :: "jsval \<Rightarrow> jsval \<Rightarrow> TransactionReceipt" where
  "demo_receipt created dest = \<lparr>contractAddress = created, to = dest, transactionHash = ''0x01''\<rparr>"

definition no_options :: TraceOptions where
  "no_options =
     \<lparr>constants = None, onTrace = None, preFilter = None, postFilter = None,
      execLog = None, exec = None\<rparr>"





section \<open>The calls of source resolution\<close>

lemma bindE_Inl: "fst m = Inl e \<Longrightarrow> bindE m f = (Inl e, snd m)"
  by (simp add: bindE_def)

lemma bindE_Inr: "fst m = Inr x \<Longrightarrow> bindE m f = (fst (f x), snd m @ snd (f x))"
  by (simp add: bindE_def)

lemma bindE_call_Inr: "bindE (call ev (Inr x)) f = (fst (f x), ev # snd (f x))"
  by (simp add: bindE_def call_def)

lemma bindE_call_Inl: "bindE (call ev (Inl e)) f = (Inl e, [ev])"
  by (simp add: bindE_def call_def)

lemma bindE_ret: "bindE (ret x) f = f x"
  by (simp add: bindE_def ret_def)

lemma bindE_lift_Inr: "bindE (lift (Inr x)) f = f x"
  by (simp add: bindE_def lift_def)

lemma bindE_lift_Inl: "bindE (lift (Inl e)) f = (Inl e, [])"
  by (simp add: bindE_def lift_def)

lemma bindE_throw: "bindE (throw e) f = (Inl e, [])"
  by (simp add: bindE_def throw_def)

lemmas bindE_simps = bindE_call_Inr bindE_call_Inl bindE_ret bindE_lift_Inr bindE_lift_Inl
  bindE_throw

lemma snd_bindE_prefix: "\<exists>rest. snd (bindE m f) = snd m @ rest"
  by (cases "fst m") (simp_all add: bindE_def)

lemma resolveSource_calls:
  "\<exists>rest. snd (resolveSource E tc receipt) =
     GetCode (if truthy (contractAddress receipt) then contractAddress receipt else to receipt) # rest"
proof -
  let ?a = "if truthy (contractAddress receipt) then contractAddress receipt else to receipt"
  show ?thesis
  proof (cases "getCode E ?a")
    case (Inl e)
    then show ?thesis by (simp add: resolveSource_def Let_def bindE_simps)
  next
    case (Inr b)
    then show ?thesis by (simp add: resolveSource_def Let_def bindE_simps)
  qed
qed

lemma resolveSource_calls2:
  assumes "getCode E (if truthy (contractAddress receipt) then contractAddress receipt else to receipt) = Inr b"
  shows "\<exists>rest. snd (resolveSource E tc receipt) =
     GetCode (if truthy (contractAddress receipt) then contractAddress receipt else to receipt)
     # GetContractData (if truthy (contractAddress receipt) then contractAddress receipt else to receipt)
         b (contractAddress receipt \<noteq> Null) # rest"
proof -
  let ?a = "if truthy (contractAddress receipt) then contractAddress receipt else to receipt"
  show ?thesis
  proof (cases "tc ?a b (contractAddress receipt \<noteq> Null)")
    case (Inl e)
    then show ?thesis using assms by (simp add: resolveSource_def Let_def bindE_simps)
  next
    case (Inr cd)
    then show ?thesis using assms by (simp add: resolveSource_def Let_def bindE_simps)
  qed
qed

lemma trace_calls_resolve:
  assumes "traceCollector tr = Some tc"
  shows "\<exists>rest. snd (fst (trace E tr receipt opts)) = snd (resolveSource E tc receipt) @ rest"
proof -
  obtain r1 where r1: "snd (bindE (resolveSource E tc receipt) (\<lambda>ti. ret (Some ti)))
      = snd (resolveSource E tc receipt) @ r1"
    using snd_bindE_prefix by blast
  have "\<exists>r2. snd (prepare E tr receipt opts)
      = snd (bindE (resolveSource E tc receipt) (\<lambda>ti. ret (Some ti))) @ r2"
    unfolding prepare_def assms option.case by (rule snd_bindE_prefix)
  then obtain r2 where r2: "snd (prepare E tr receipt opts)
      = snd (bindE (resolveSource E tc receipt) (\<lambda>ti. ret (Some ti))) @ r2" ..
  have "\<exists>r3. snd (fst (trace E tr receipt opts)) = snd (prepare E tr receipt opts) @ r3"
    unfolding trace_def fst_conv by (rule snd_bindE_prefix)
  then obtain r3 where r3: "snd (fst (trace E tr receipt opts)) = snd (prepare E tr receipt opts) @ r3" ..
  show ?thesis using r1 r2 r3 by simp
qed

text \<open>
  C5. With source resolution configured, the first call the tracer makes is the bytecode
  lookup, and its address is the receipt's created-contract address when the receipt has
  one (a non-empty string), and the receipt's destination address when
  \<^verbatim>\<open>contractAddress\<close> is \<^verbatim>\<open>null\<close>. When the lookup answers, the metadata query
  that follows is made for the same address.
\<close>

theorem resolver_target:
  assumes "traceCollector tr = Some tc"
  shows "(\<forall>a. contractAddress receipt = Str a \<and> a \<noteq> [] \<longrightarrow>
            take 1 (snd (fst (trace E tr receipt opts))) = [GetCode (Str a)])
       \<and> (contractAddress receipt = Null \<longrightarrow>
            take 1 (snd (fst (trace E tr receipt opts))) = [GetCode (to receipt)])
       \<and> (\<forall>b. getCode E (if truthy (contractAddress receipt) then contractAddress receipt
                          else to receipt) = Inr b \<longrightarrow>
            take 2 (snd (fst (trace E tr receipt opts))) =
              [GetCode (if truthy (contractAddress receipt) then contractAddress receipt
                        else to receipt),
               GetContractData (if truthy (contractAddress receipt) then contractAddress receipt
                                else to receipt) b (contractAddress receipt \<noteq> Null)])"
proof -
  let ?a = "if truthy (contractAddress receipt) then contractAddress receipt else to receipt"
  obtain r where r: "snd (fst (trace E tr receipt opts)) = snd (resolveSource E tc receipt) @ r"
    using trace_calls_resolve[OF assms] by blast
  obtain r' where r': "snd (resolveSource E tc receipt) = GetCode ?a # r'"
    using resolveSource_calls by blast
  have one: "take 1 (snd (fst (trace E tr receipt opts))) = [GetCode ?a]"
    using r r' by simp
  have two: "take 2 (snd (fst (trace E tr receipt opts))) =
      [GetCode ?a, GetContractData ?a b (contractAddress receipt \<noteq> Null)]"
    if gb: "getCode E ?a = Inr b" for b
  proof -
    obtain r2 where "snd (resolveSource E tc receipt) =
        GetCode ?a # GetContractData ?a b (contractAddress receipt \<noteq> Null) # r2"
      using resolveSource_calls2[OF gb] by blast
    then show ?thesis using r by (simp add: numeral_2_eq_2)
  qed
  show ?thesis using one two by auto
qed

theorem resolver_target_witness:
  "take 1 (snd (fst (trace demo_env demo_tracer (demo_receipt (Str ''0xnew'') Null) no_options)))
     = [GetCode (Str ''0xnew'')]
   \<and> take 1 (snd (fst (trace demo_env demo_tracer (demo_receipt Null (Str ''0xabc'')) no_options)))
     = [GetCode (Str ''0xabc'')]
   \<and> take 2 (snd (fst (trace demo_env demo_tracer (demo_receipt Null (Str ''0xabc'')) no_options)))
     = [GetCode (Str ''0xabc''), GetContractData (Str ''0xabc'') ''0x6001'' False]"
proof -
  have tc: "traceCollector demo_tracer = Some demo_collector" by (simp add: demo_tracer_def)
  have gc: "getCode demo_env (Str ''0xabc'') = Inr ''0x6001''" by (simp add: demo_env_def)
  show ?thesis
    using resolver_target[OF tc, of "demo_receipt (Str ''0xnew'') Null" demo_env no_options]
      resolver_target[OF tc, of "demo_receipt Null (Str ''0xabc'')" demo_env no_options] gc
    by (simp add: demo_receipt_def)
qed

text \<open>
  C10. A receipt whose \<^verbatim>\<open>contractAddress\<close> is \<^verbatim>\<open>undefined\<close>: the bytecode
  lookup and the metadata query are made for the destination address, the query is flagged
  as a contract creation, and the source map handed to the decoder is the
  construction-time one.
\<close>

theorem undefined_contract_address:
  assumes "traceCollector tr = Some tc"
    and "contractAddress receipt = Undefined"
    and "getCode E (to receipt) = Inr b"
    and "tc (to receipt) b True = Inr (Some cd)"
  shows "take 3 (snd (fst (trace E tr receipt opts))) =
           [GetCode (to receipt),
            GetContractData (to receipt) b True,
            ParseSourceMap (sourceCodes cd) (sourceMap cd) (stripHexPrefix E b) (sources cd)]"
proof -
  obtain r where r: "snd (fst (trace E tr receipt opts)) = snd (resolveSource E tc receipt) @ r"
    using trace_calls_resolve[OF assms(1)] by blast
  let ?ev = "ParseSourceMap (sourceCodes cd) (sourceMap cd) (stripHexPrefix E b) (sources cd)"
  let ?m = "call ?ev (parseSourceMap E (sourceCodes cd) (sourceMap cd) (stripHexPrefix E b) (sources cd))"
  have rs: "resolveSource E tc receipt =
      (let k = bindE ?m (\<lambda>pcToSourceRange.
           bindE (lift (inverted_of (sourceCodes cd) (sources cd) Map.empty)) (\<lambda>inverted.
           ret (pcToSourceRange, inverted)))
       in (fst k, GetCode (to receipt) # GetContractData (to receipt) b True # snd k))"
    using assms(2-4) by (simp add: resolveSource_def Let_def bindE_simps)
  obtain r' where "snd (bindE ?m (\<lambda>pcToSourceRange.
           bindE (lift (inverted_of (sourceCodes cd) (sources cd) Map.empty)) (\<lambda>inverted.
           ret (pcToSourceRange, inverted)))) = snd ?m @ r'"
    using snd_bindE_prefix by blast
  then have "snd (resolveSource E tc receipt) =
     [GetCode (to receipt), GetContractData (to receipt) b True, ?ev] @ r'"
    by (simp add: rs Let_def call_def)
  then show ?thesis using r by (simp add: numeral_3_eq_3)
qed

theorem undefined_contract_address_witness:
  "take 3 (snd (fst (trace demo_env demo_tracer (demo_receipt Undefined (Str ''0xabc'')) no_options))) =
           [GetCode (Str ''0xabc''),
            GetContractData (Str ''0xabc'') ''0x6001'' True,
            ParseSourceMap (sourceCodes demo_data) ''0:10:0'' ''6001'' (sources demo_data)]"
proof -
  have e1: "to (demo_receipt Undefined (Str ''0xabc'')) = Str ''0xabc''"
    by (simp add: demo_receipt_def)
  have e2: "stripHexPrefix demo_env ''0x6001'' = ''6001''" by (simp add: demo_env_def)
  have e3: "sourceMap demo_data = ''0:10:0''" by (simp add: demo_data_def)
  have h1: "traceCollector demo_tracer = Some demo_collector" by (simp add: demo_tracer_def)
  have h2: "contractAddress (demo_receipt Undefined (Str ''0xabc'')) = Undefined"
    by (simp add: demo_receipt_def)
  have h3: "getCode demo_env (to (demo_receipt Undefined (Str ''0xabc''))) = Inr ''0x6001''"
    by (simp add: demo_env_def)
  have h4: "demo_collector (to (demo_receipt Undefined (Str ''0xabc''))) ''0x6001'' True = Inr (Some demo_data)"
    by (simp add: demo_collector_def)
  have "take 3 (snd (fst (trace demo_env demo_tracer (demo_receipt Undefined (Str ''0xabc'')) no_options))) =
           [GetCode (to (demo_receipt Undefined (Str ''0xabc''))),
            GetContractData (to (demo_receipt Undefined (Str ''0xabc''))) ''0x6001'' True,
            ParseSourceMap (sourceCodes demo_data) (sourceMap demo_data) (stripHexPrefix demo_env ''0x6001'') (sources demo_data)]"
    by (rule undefined_contract_address[where tr = demo_tracer and tc = demo_collector
       and receipt = "demo_receipt Undefined (Str ''0xabc'')" and E = demo_env and b = "''0x6001''"
       and cd = demo_data and opts = no_options, OF h1 h2 h3 h4])
  then show ?thesis
    by (simp only: e1 e2 e3)
qed


text \<open>
  C8. When the collector finds no metadata for the bytecode at the target address, the
  call fails with the error of line 114, whose message ends with the queried address; no
  further call is made, the tracer is left as it was, and a later call on it behaves as
  on the tracer before.
\<close>

theorem contract_data_not_found:
  assumes "traceCollector tr = Some tc"
    and "address = (if truthy (contractAddress receipt) then contractAddress receipt else to receipt)"
    and "getCode E address = Inr b"
    and "tc address b (contractAddress receipt \<noteq> Null) = Inr None"
  shows "trace E tr receipt opts =
           ((Inl (Error (''Failed to find contract data for given bytecode at '' @ to_string address)),
             [GetCode address, GetContractData address b (contractAddress receipt \<noteq> Null)]),
            tr)
         \<and> trace E (snd (trace E tr receipt opts)) receipt' opts' = trace E tr receipt' opts'"
proof -
  have rs: "resolveSource E tc receipt =
      (Inl (Error (''Failed to find contract data for given bytecode at '' @ to_string address)),
       [GetCode address, GetContractData address b (contractAddress receipt \<noteq> Null)])"
    using assms(2-4) by (simp add: resolveSource_def Let_def bindE_simps throw_def)
  have "prepare E tr receipt opts =
      (Inl (Error (''Failed to find contract data for given bytecode at '' @ to_string address)),
       [GetCode address, GetContractData address b (contractAddress receipt \<noteq> Null)])"
    unfolding prepare_def assms(1) option.case by (simp add: rs bindE_Inl)
  then show ?thesis by (simp add: trace_def bindE_Inl)
qed

theorem contract_data_not_found_witness:
  "trace demo_env blind_tracer (demo_receipt (Str ''0xnew'') Null) no_options =
     ((Inl (Error ''Failed to find contract data for given bytecode at 0xnew''),
       [GetCode (Str ''0xnew''), GetContractData (Str ''0xnew'') ''0x6001'' True]),
      blind_tracer)
   \<and> trace demo_env (snd (trace demo_env blind_tracer (demo_receipt (Str ''0xnew'') Null) no_options))
        (demo_receipt Null (Str ''0xabc'')) no_options
     = trace demo_env blind_tracer (demo_receipt Null (Str ''0xabc'')) no_options"
proof -
  have h1: "traceCollector blind_tracer = Some blind_collector" by (simp add: blind_tracer_def)
  have h2: "Str ''0xnew'' = (if truthy (contractAddress (demo_receipt (Str ''0xnew'') Null))
                 then contractAddress (demo_receipt (Str ''0xnew'') Null)
                 else to (demo_receipt (Str ''0xnew'') Null))"
    by (simp add: demo_receipt_def)
  have h3: "getCode demo_env (Str ''0xnew'') = Inr ''0x6001''" by (simp add: demo_env_def)
  have h4: "blind_collector (Str ''0xnew'') ''0x6001''
              (contractAddress (demo_receipt (Str ''0xnew'') Null) \<noteq> Null) = Inr None"
    by (simp add: blind_collector_def)
  have e: "(contractAddress (demo_receipt (Str ''0xnew'') Null) \<noteq> Null) = True"
    by (simp add: demo_receipt_def)
  show ?thesis
    using contract_data_not_found[where tr = blind_tracer and tc = blind_collector
        and address = "Str ''0xnew''" and receipt = "demo_receipt (Str ''0xnew'') Null"
        and E = demo_env and b = "''0x6001''" and opts = no_options
        and receipt' = "demo_receipt Null (Str ''0xabc'')" and opts' = no_options,
        OF h1 h2 h3 h4]
    by (simp only: e to_string.simps append.simps snd_conv simp_thms)
qed

section \<open>The source-injection stage\<close>

lemma injectOne_frame:
  "injectOne c t i log = Inr log' \<Longrightarrow>
     log'\<lparr>source := source log, sourceLine := sourceLine log\<rparr> = log
     \<and> source log' \<noteq> None \<and> sourceLine log' \<noteq> None"
  by (auto simp: injectOne_def split: option.splits sum.splits)

lemma injectSource_length:
  "injectSource c t i logs = Inr logs' \<Longrightarrow> length logs' = length logs"
  by (induction logs arbitrary: logs') (auto split: sum.splits)

lemma injectSource_nth:
  "injectSource c t i logs = Inr logs' \<Longrightarrow> k < length logs \<Longrightarrow>
     injectOne c t i (logs ! k) = Inr (logs' ! k)"
proof (induction logs arbitrary: logs' k)
  case Nil
  then show ?case by simp
next
  case (Cons l ls)
  then show ?case by (cases k) (auto split: sum.splits)
qed

text \<open>
  C9. Where the source-injection stage succeeds, it returns as many steps as it was given,
  and the step at each position is the input step at that position with the
  \<^verbatim>\<open>source\<close> and \<^verbatim>\<open>sourceLine\<close> fields set: putting the two old values back
  gives the input step, so the nine raw fields and the other enrichment fields are the
  input's. The stage takes the input sequence as a value and builds a new one.
\<close>

theorem annotation_frame:
  assumes "injectSource c tbl idx logs = Inr logs'" and "k < length logs"
  shows "length logs' = length logs
       \<and> (logs' ! k)\<lparr>source := source (logs ! k), sourceLine := sourceLine (logs ! k)\<rparr> = logs ! k
       \<and> rawFields (logs' ! k) = rawFields (logs ! k)
       \<and> desc (logs' ! k) = desc (logs ! k) \<and> lastDesc (logs' ! k) = lastDesc (logs ! k)
       \<and> sha (logs' ! k) = sha (logs ! k) \<and> show' (logs' ! k) = show' (logs ! k)
       \<and> source (logs' ! k) \<noteq> None \<and> sourceLine (logs' ! k) \<noteq> None"
proof -
  have one: "injectOne c tbl idx (logs ! k) = Inr (logs' ! k)"
    using assms by (rule injectSource_nth)
  have upd: "(logs' ! k)\<lparr>source := source (logs ! k), sourceLine := sourceLine (logs ! k)\<rparr> = logs ! k"
    and set: "source (logs' ! k) \<noteq> None" "sourceLine (logs' ! k) \<noteq> None"
    using injectOne_frame[OF one] by simp_all
  have raw: "rawFields (logs' ! k) = rawFields (logs ! k)"
    using arg_cong[OF upd, of rawFields] by (simp add: rawFields_def)
  have rest: "desc (logs' ! k) = desc (logs ! k)" "lastDesc (logs' ! k) = lastDesc (logs ! k)"
    "sha (logs' ! k) = sha (logs ! k)" "show' (logs' ! k) = show' (logs ! k)"
    using arg_cong[OF upd, of desc] arg_cong[OF upd, of lastDesc]
      arg_cong[OF upd, of sha] arg_cong[OF upd, of show'] by simp_all
  show ?thesis
    using injectSource_length[OF assms(1)] upd raw rest set by simp
qed

lemma demo_inject:
  "injectSource esc_color demo_table demo_index [demo_step 0 ''PUSH1''] =
     Inr [(demo_step 0 ''PUSH1'')\<lparr>source := Some ([CHR 0x1B] @ ''contract'' @ [CHR 0x1B] @ '' A {''),
                                 sourceLine := Some ''A.sol:1[0-8]''\<rparr>]"
proof -
  have n: "number_to_string 1 = ''1''" "number_to_string 0 = ''0''" "number_to_string 8 = ''8''"
    by code_simp+
  show ?thesis
    by (simp add: injectOne_def demo_table_def demo_index_def demo_step_def mk_range_def
        getSource_def Let_def n demo_file_def slice_def slice_from_def js_index_def
        excerpt_step_def esc_color_def)
qed

theorem annotation_frame_witness:
  "injectSource esc_color demo_table demo_index [demo_step 0 ''PUSH1''] =
     Inr [(demo_step 0 ''PUSH1'')\<lparr>source := Some ([CHR 0x1B] @ ''contract'' @ [CHR 0x1B] @ '' A {''),
                                 sourceLine := Some ''A.sol:1[0-8]''\<rparr>]
   \<and> (0::nat) < length [demo_step 0 ''PUSH1'']
   \<and> rawFields ((demo_step 0 ''PUSH1'')\<lparr>source := Some ([CHR 0x1B] @ ''contract'' @ [CHR 0x1B] @ '' A {''),
                                 sourceLine := Some ''A.sol:1[0-8]''\<rparr>)
       = rawFields (demo_step 0 ''PUSH1'')"
proof -
  have k: "(0::nat) < length [demo_step 0 ''PUSH1'']" by simp
  show ?thesis
    using annotation_frame[OF demo_inject k] demo_inject k by simp
qed

section \<open>The location label\<close>

text \<open>
  C6. The location label is \<^verbatim>\<open><file>:<line>[<startCol>-<endCol>]\<close> when the range starts
  and ends on one line and \<^verbatim>\<open><file>:<startLine>[<startCol>]-<endLine>[<endCol>]\<close>
  otherwise, with the numbers in decimal; the ranges (10,4) to (10,9) and (12,2) to (14,5)
  of file \<^verbatim>\<open>A\<close> give \<^verbatim>\<open>A:10[4-9]\<close> and \<^verbatim>\<open>A:12[2]-14[5]\<close>.
\<close>

theorem label_format:
  "map_sum id snd (getSource c offset (Some file)) =
     Inr (if line (start (location offset)) = line (end' (location offset))
          then fileName offset @ '':'' @ number_to_string (line (start (location offset)))
               @ ''['' @ number_to_string (column (start (location offset)))
               @ ''-'' @ number_to_string (column (end' (location offset))) @ '']''
          else fileName offset @ '':'' @ number_to_string (line (start (location offset)))
               @ ''['' @ number_to_string (column (start (location offset)))
               @ '']-'' @ number_to_string (line (end' (location offset)))
               @ ''['' @ number_to_string (column (end' (location offset))) @ '']'')
   \<and> map_sum id snd (getSource c (mk_range ''A'' 10 4 10 9) (Some file)) = Inr ''A:10[4-9]''
   \<and> map_sum id snd (getSource c (mk_range ''A'' 12 2 14 5) (Some file)) = Inr ''A:12[2]-14[5]''"
proof -
  have n: "number_to_string 10 = ''10''" "number_to_string 4 = ''4''"
    "number_to_string 9 = ''9''" "number_to_string 12 = ''12''" "number_to_string 2 = ''2''"
    "number_to_string 14 = ''14''" "number_to_string 5 = ''5''"
    by code_simp+
  show ?thesis
    by (simp add: getSource_def mk_range_def Let_def n)
qed

section \<open>A program counter the table does not have\<close>

lemma injectOne_unmapped:
  "tbl (pc log) = None \<Longrightarrow> injectOne c tbl idx log = Inl (TypeError ''fileName'')"
  by (simp add: injectOne_def)

lemma injectSource_unmapped:
  assumes "log \<in> set logs" and "tbl (pc log) = None"
  shows "\<exists>e. injectSource c tbl idx logs = Inl e"
  using assms(1)
proof (induction logs)
  case Nil
  then show ?case by simp
next
  case (Cons l ls)
  show ?case
  proof (cases "injectOne c tbl idx l")
    case (Inl e)
    then show ?thesis by simp
  next
    case (Inr l')
    have "injectOne c tbl idx log = Inl (TypeError ''fileName'')"
      using assms(2) by (rule injectOne_unmapped)
    then have "l \<noteq> log" using Inr by auto
    then have "log \<in> set ls" using Cons.prems by simp
    then obtain e where "injectSource c tbl idx ls = Inl e" using Cons.IH by blast
    then show ?thesis using Inr by simp
  qed
qed

text \<open>
  C1. A step whose program counter the table does not have: the trace of three steps at
  program counters 0, 1 and 2, against a table with entries for 0 and 2 only, with source
  resolution configured and no filter. The call ends in the \<^verbatim>\<open>TypeError\<close> of reading
  \<^verbatim>\<open>fileName\<close> from \<^verbatim>\<open>undefined\<close> (line 140), after the four calls that precede
  the stage.
\<close>

theorem unmapped_pc_type_error:
  "fst (trace demo_env demo_tracer (demo_receipt Null (Str ''0xabc'')) no_options) =
     (Inl (TypeError ''fileName''),
      [GetCode (Str ''0xabc''),
       GetContractData (Str ''0xabc'') ''0x6001'' False,
       ParseSourceMap (sourceCodes demo_data) ''2:5:0'' ''6001'' (sources demo_data),
       TraceTransaction ''0x01''])"
proof -
  have n: "number_to_string 1 = ''1''" "number_to_string 0 = ''0''" "number_to_string 8 = ''8''"
    by code_simp+
  have rs: "resolveSource demo_env demo_collector (demo_receipt Null (Str ''0xabc'')) =
      (Inr (demo_table, demo_index),
       [GetCode (Str ''0xabc''),
        GetContractData (Str ''0xabc'') ''0x6001'' False,
        ParseSourceMap (sourceCodes demo_data) ''2:5:0'' ''6001'' (sources demo_data)])"
    by (simp add: resolveSource_def demo_receipt_def demo_env_def demo_collector_def Let_def
        bindE_simps demo_data_def demo_index_def demo_file_def ret_def)
  have inj: "injectSource esc_color demo_table demo_index (structLogs demo_trace) =
      Inl (TypeError ''fileName'')"
    by (simp add: injectOne_def demo_table_def demo_index_def demo_step_def mk_range_def
        getSource_def Let_def n demo_trace_def)
  have fs: "filterStages esc_color None (Some (demo_table, demo_index)) None (structLogs demo_trace)
      = Inl (TypeError ''fileName'')"
    by (simp add: filterStages_def inj)
  have pr: "prepare demo_env demo_tracer (demo_receipt Null (Str ''0xabc'')) no_options =
      (Inl (TypeError ''fileName''),
       [GetCode (Str ''0xabc''),
        GetContractData (Str ''0xabc'') ''0x6001'' False,
        ParseSourceMap (sourceCodes demo_data) ''2:5:0'' ''6001'' (sources demo_data),
        TraceTransaction ''0x01''])"
    unfolding prepare_def
    by (simp add: demo_tracer_def rs bindE_Inr bindE_simps ret_def no_options_def)
       (simp add: demo_env_def demo_receipt_def bindE_simps fs)
  show ?thesis by (simp add: trace_def pr bindE_Inl)
qed

section \<open>The per-step handler and \<^verbatim>\<open>Promise.all\<close>\<close>

lemma zip_upt_mem:
  "(j, r) \<in> set (zip [0 ..< length rs] rs) \<longleftrightarrow> j < length rs \<and> rs ! j = r"
proof -
  have "zip [0 ..< length rs] rs = enumerate 0 rs"
    by (simp add: enumerate_eq_zip)
  then show ?thesis by (simp add: in_set_enumerate_eq)
qed

lemma rejections_set:
  "(i, e) \<in> set (rejections rs) \<longleftrightarrow> i < length rs \<and> rs ! i = Some e"
proof
  assume "(i, e) \<in> set (rejections rs)"
  then obtain ir where ir: "ir \<in> set (zip [0 ..< length rs] rs)"
    and m: "(i, e) \<in> set (case snd ir of None \<Rightarrow> [] | Some e \<Rightarrow> [(fst ir, e)])"
    unfolding rejections_def by auto
  from m have "fst ir = i" "snd ir = Some e" by (auto split: option.splits)
  then have "(i, Some e) \<in> set (zip [0 ..< length rs] rs)" using ir by (cases ir) simp
  then show "i < length rs \<and> rs ! i = Some e" by (simp only: zip_upt_mem)
next
  assume "i < length rs \<and> rs ! i = Some e"
  then have "(i, Some e) \<in> set (zip [0 ..< length rs] rs)" by (simp only: zip_upt_mem)
  then show "(i, e) \<in> set (rejections rs)"
    unfolding rejections_def by force
qed

lemma rejections_empty: "rejections rs = [] \<longleftrightarrow> (\<forall>i<length rs. rs ! i = None)"
proof
  assume "rejections rs = []"
  then have none: "\<And>i e. (i, e) \<notin> set (rejections rs)" by simp
  show "\<forall>i<length rs. rs ! i = None"
  proof (intro allI impI)
    fix i assume i: "i < length rs"
    show "rs ! i = None"
    proof (cases "rs ! i")
      case None then show ?thesis .
    next
      case (Some e)
      then have "(i, e) \<in> set (rejections rs)" using i by (simp add: rejections_set)
      then show ?thesis using none by blast
    qed
  qed
next
  assume a: "\<forall>i<length rs. rs ! i = None"
  have "p \<notin> set (rejections rs)" for p
  proof (cases p)
    case (Pair i e)
    then show ?thesis using a by (simp add: rejections_set)
  qed
  then show "rejections rs = []" by (cases "rejections rs") auto
qed

lemma promise_all_resolves:
  "promise_all t rs = Inr () \<longleftrightarrow> (\<forall>i<length rs. rs ! i = None)"
proof (cases "sort_key (\<lambda>ie. t (fst ie)) (rejections rs)")
  case Nil
  then have "length (rejections rs) = 0"
    using length_sort[of "\<lambda>ie. t (fst ie)" "rejections rs"] by simp
  then have "rejections rs = []" by simp
  then show ?thesis using Nil rejections_empty[of rs] by (simp add: promise_all_def)
next
  case (Cons ie rest)
  then have "rejections rs \<noteq> []" by auto
  then show ?thesis using Cons rejections_empty[of rs] by (simp add: promise_all_def)
qed










lemma bindE_pair_Inr: "bindE (Inr x, es) f = (fst (f x), es @ snd (f x))"
  by (simp add: bindE_def)







lemma invoked_subset: "set (invoked h info logs) \<subseteq> set logs"
proof (cases "dropWhile (\<lambda>l. \<not> is_Throws (h l info)) logs")
  case Nil
  then show ?thesis unfolding invoked_def by (simp only: list.case subset_refl)
next
  case (Cons l rest)
  then have "l \<in> set (dropWhile (\<lambda>l. \<not> is_Throws (h l info)) logs)" by simp
  then have "l \<in> set logs" by (rule set_dropWhileD)
  moreover have "set (takeWhile (\<lambda>l. \<not> is_Throws (h l info)) logs) \<subseteq> set logs"
    by (auto dest: set_takeWhileD)
  ultimately show ?thesis unfolding invoked_def Cons by (simp only: list.case) auto
qed


lemma invokeAll_returns:
  "\<forall>l\<in>set logs. \<not> is_Throws (h l info) \<Longrightarrow>
     fst (invokeAll h info logs) = Inr (map (\<lambda>l. promise_of (h l info)) logs)"
proof (induction logs)
  case Nil
  then show ?case by simp
next
  case (Cons l ls)
  then obtain p where "h l info = Returns p" by (cases "h l info") auto
  then show ?case using Cons by simp
qed












section \<open>A trace with nothing configured\<close>

text \<open>
  C3. With no source resolution, no pre-filter and no post-filter, when the RPC answers a
  trace of N steps, the augmentation returns its steps with their raw fields in the same
  order, and no handler fails, the call returns the augmented sequence as it is: N
  steps, in the order of the trace.
\<close>

theorem unfiltered_trace_returns_all:
  assumes "traceCollector tr = None" and "preFilter opts = None" and "postFilter opts = None"
    and "debug_traceTransaction E (transactionHash receipt) = Inr (Some t)"
    and "augmentLogs E (structLogs t) (case constants opts of None \<Rightarrow> [] | Some cs \<Rightarrow> cs)
           = Inr (logs, info)"
    and "map rawFields logs = map rawFields (structLogs t)"
    and "case onTrace opts of None \<Rightarrow> True | Some f \<Rightarrow> f (Some t) = None"
    and "case execLog opts of None \<Rightarrow> True
           | Some h \<Rightarrow> list_all (\<lambda>l. h l info = Returns None) logs"
    and "case exec opts of None \<Rightarrow> True | Some h \<Rightarrow> h logs info = None"
  shows "fst (fst (trace E tr receipt opts)) = Inr logs
       \<and> length logs = length (structLogs t)
       \<and> map rawFields logs = map rawFields (structLogs t)"
proof -
  have obs: "fst (case onTrace opts of None \<Rightarrow> ret ()
              | Some f \<Rightarrow> call (OnTrace (Some t)) (settled (f (Some t)))) = Inr ()"
  proof (cases "onTrace opts")
    case None
    then show ?thesis by (simp add: ret_def)
  next
    case (Some f)
    then show ?thesis using assms(7) by (simp add: call_def settled_def)
  qed
  have fs: "filterStages (color E) None None None logs = Inr logs"
    by (simp add: filterStages_def)
  have "fst (prepare E tr receipt opts) = Inr (logs, info)"
    unfolding prepare_def assms(1) option.case
    using assms(4,5) obs
    by (simp add: bindE_simps bindE_Inr assms(2,3) fs ret_def)
  then obtain evs where prep: "prepare E tr receipt opts = (Inr (logs, info), evs)"
    by (cases "prepare E tr receipt opts") simp
  have pa: "fst (case execLog opts of None \<Rightarrow> ret ()
              | Some h \<Rightarrow> bindE (invokeAll h info logs) (\<lambda>promises.
                  lift (promise_all (settle E) promises))) = Inr ()"
  proof (cases "execLog opts")
    case None
    then show ?thesis by (simp add: ret_def)
  next
    case (Some h)
    let ?rs = "map (\<lambda>l. promise_of (h l info)) logs"
    have ok: "\<forall>l\<in>set logs. h l info = Returns None"
      using assms(8) Some by (simp add: list_all_iff)
    then have "\<forall>l\<in>set logs. \<not> is_Throws (h l info)" by simp
    then have inv: "fst (invokeAll h info logs) = Inr ?rs" by (rule invokeAll_returns)
    have "\<forall>i<length ?rs. ?rs ! i = None" using ok by simp
    then have "promise_all (settle E) ?rs = Inr ()"
      by (simp only: promise_all_resolves)
    then show ?thesis using Some inv by (simp add: bindE_def lift_def)
  qed
  have ex: "fst (case exec opts of None \<Rightarrow> ret ()
              | Some h \<Rightarrow> call (Exec logs info) (settled (h logs info))) = Inr ()"
  proof (cases "exec opts")
    case None
    then show ?thesis by (simp add: ret_def)
  next
    case (Some h)
    then show ?thesis using assms(9) by (simp add: call_def settled_def)
  qed
  have "fst (dispatch E opts (logs, info)) = Inr logs"
    using pa ex by (simp add: dispatch_def Let_def bindE_Inr ret_def)
  then have "fst (fst (trace E tr receipt opts)) = Inr logs"
    by (simp add: trace_def prep bindE_pair_Inr)
  moreover have "length logs = length (structLogs t)"
    using arg_cong[OF assms(6), of length] by simp
  ultimately show ?thesis using assms(6) by simp
qed


theorem unfiltered_trace_returns_all_witness:
  "fst (fst (trace demo_env plain_tracer (demo_receipt Null (Str ''0xabc'')) no_options))
     = Inr [demo_step 0 ''PUSH1'', demo_step 1 ''JUMPDEST'', demo_step 2 ''SSTORE'']
   \<and> length (structLogs demo_trace) = 3"
proof -
  have h1: "traceCollector plain_tracer = None" by (simp add: plain_tracer_def)
  have h2: "preFilter no_options = None" and h3: "postFilter no_options = None"
    by (simp_all add: no_options_def)
  have h4: "debug_traceTransaction demo_env (transactionHash (demo_receipt Null (Str ''0xabc'')))
      = Inr (Some demo_trace)"
    by (simp add: demo_env_def)
  have h5: "augmentLogs demo_env (structLogs demo_trace)
      (case constants no_options of None \<Rightarrow> [] | Some cs \<Rightarrow> cs)
      = Inr (structLogs demo_trace, demo_info)"
    by (simp add: demo_env_def)
  have h6: "map rawFields (structLogs demo_trace) = map rawFields (structLogs demo_trace)"
    by simp
  have h7: "case onTrace no_options of None \<Rightarrow> True | Some f \<Rightarrow> f (Some demo_trace) = None"
    by (simp add: no_options_def)
  have h8: "case execLog no_options of None \<Rightarrow> True
      | Some h \<Rightarrow> list_all (\<lambda>l. h l demo_info = Returns None) (structLogs demo_trace)"
    by (simp add: no_options_def)
  have h9: "case exec no_options of None \<Rightarrow> True
      | Some h \<Rightarrow> h (structLogs demo_trace) demo_info = None"
    by (simp add: no_options_def)
  show ?thesis
    using unfiltered_trace_returns_all[where E = demo_env and tr = plain_tracer
        and receipt = "demo_receipt Null (Str ''0xabc'')" and opts = no_options
        and t = demo_trace and logs = "structLogs demo_trace" and info = demo_info,
        OF h1 h2 h3 h4 h5 h6 h7 h8 h9]
    by (simp add: demo_trace_def)
qed

section \<open>Pre-filter and post-filter\<close>










section \<open>The excerpt of a range of several lines\<close>

lemma js_index_0: "js_index n 0 = 0"
  by (simp add: js_index_def)

lemma slice_split: "slice ln 0 k @ slice_from ln k = ln"
  by (simp add: slice_def slice_from_def js_index_0 Let_def)

lemma excerpt_tail:
  assumes "xs \<noteq> []" and "0 < i" and "i + length xs = len"
  shows "foldl (excerpt_step c len s e) acc (zip [i ..< i + length xs] xs)
           = acc @ concat (map c (butlast xs)) @ c (slice (last xs) 0 e) @ slice_from (last xs) e"
  using assms
proof (induction xs arbitrary: i acc)
  case Nil
  then show ?case by simp
next
  case (Cons x xs)
  have upt: "[i ..< i + length (x # xs)] = i # [Suc i ..< Suc i + length xs]"
    by (subst upt_conv_Cons) simp_all
  show ?case
  proof (cases "xs = []")
    case True
    then have "int i = int len - 1" using Cons.prems by simp
    then show ?thesis using True Cons.prems(2) by (simp add: excerpt_step_def Let_def)
  next
    case False
    have nl: "int i \<noteq> int len - 1" using False Cons.prems by (cases xs) auto
    have step: "excerpt_step c len s e acc (i, x) = acc @ c x"
      using nl Cons.prems(2) by (simp add: excerpt_step_def Let_def)
    have "foldl (excerpt_step c len s e) (acc @ c x) (zip [Suc i ..< Suc i + length xs] xs)
        = (acc @ c x) @ concat (map c (butlast xs)) @ c (slice (last xs) 0 e)
            @ slice_from (last xs) e"
      using Cons.prems False by (intro Cons.IH) simp_all
    then show ?thesis unfolding upt using False step by (simp del: upt_Suc)
  qed
qed

lemma excerpt_multiline:
  assumes "xs \<noteq> []"
  shows "foldl (excerpt_step c (length (l0 # xs)) s e) [] (zip [0 ..< length (l0 # xs)] (l0 # xs))
           = slice l0 0 s @ c (slice_from l0 s) @ concat (map c (butlast xs))
             @ c (slice (last xs) 0 e) @ slice_from (last xs) e"
proof -
  have upt: "[0 ..< length (l0 # xs)] = 0 # [1 ..< 1 + length xs]"
    by (subst upt_conv_Cons) simp_all
  have first: "excerpt_step c (length (l0 # xs)) s e [] (0, l0) = slice l0 0 s @ c (slice_from l0 s)"
    using assms by (simp add: excerpt_step_def Let_def)
  have "foldl (excerpt_step c (length (l0 # xs)) s e) (slice l0 0 s @ c (slice_from l0 s))
          (zip [1 ..< 1 + length xs] xs)
        = (slice l0 0 s @ c (slice_from l0 s)) @ concat (map c (butlast xs))
            @ c (slice (last xs) 0 e) @ slice_from (last xs) e"
    using assms by (intro excerpt_tail) simp_all
  then show ?thesis unfolding upt using first by (simp del: upt_Suc)
qed

lemma slice_file_lines:
  assumes "1 \<le> l1" and "l1 \<le> l2" and "l2 \<le> int (length file)"
  shows "slice file (l1 - 1) l2 = file_lines file l1 l2"
proof (rule nth_equalityI)
  show len: "length (slice file (l1 - 1) l2) = length (file_lines file l1 l2)"
    using assms by (auto simp: slice_def js_index_def file_lines_def Let_def simp del: upt_Suc)
  fix i assume "i < length (slice file (l1 - 1) l2)"
  then have i: "i < length (file_lines file l1 l2)" using len by simp
  then have i': "i < Suc (nat l2) - nat l1" by (simp add: file_lines_def del: upt_Suc)
  have "slice file (l1 - 1) l2 ! i = file ! (nat (l1 - 1) + i)"
    using assms i' by (simp add: slice_def js_index_def Let_def) 
  moreover have "file_lines file l1 l2 ! i = file ! (nat l1 + i - 1)"
    using i' by (simp add: file_lines_def del: upt_Suc)
  moreover have "nat (l1 - 1) + i = nat l1 + i - 1" using assms(1) by auto
  ultimately show "slice file (l1 - 1) l2 ! i = file_lines file l1 l2 ! i" by simp
qed

lemma set_slice: "set (slice xs a b) \<subseteq> set xs"
proof -
  have "set (slice xs a b) \<subseteq> set (drop (js_index (length xs) a) xs)"
    unfolding slice_def Let_def by (rule set_take_subset)
  also have "\<dots> \<subseteq> set xs" by (rule set_drop_subset)
  finally show ?thesis .
qed

lemma set_slice_from: "set (slice_from xs a) \<subseteq> set xs"
  unfolding slice_from_def by (rule set_drop_subset)

lemma strip_marked_list:
  assumes "\<forall>s rest. set s \<subseteq> A \<longrightarrow> strip (c s @ rest) = s @ strip rest"
    and "\<forall>m\<in>set ms. set m \<subseteq> A"
  shows "strip (concat (map c ms) @ rest) = concat ms @ strip rest"
  using assms(2)
proof (induction ms)
  case Nil
  then show ?case by simp
next
  case (Cons m ms)
  have "strip (c m @ (concat (map c ms) @ rest)) = m @ strip (concat (map c ms) @ rest)"
    using assms(1) Cons.prems by simp
  then show ?case using Cons by simp
qed

lemma strip_ansi_plain:
  "set p \<subseteq> {ch. ch \<noteq> CHR 0x1B} \<Longrightarrow> strip_ansi (p @ rest) = p @ strip_ansi rest"
  by (induction p) auto

lemma strip_ansi_marked:
  assumes "set s \<subseteq> {ch. ch \<noteq> CHR 0x1B}"
  shows "strip_ansi (ansi_blueBright s @ rest) = s @ strip_ansi rest"
proof (cases "s = []")
  case True
  then show ?thesis by (simp add: ansi_blueBright_def)
next
  case False
  have "strip_ansi (ansi_blueBright s @ rest) = strip_ansi (s @ ([CHR 0x1B] @ ''[39m'' @ rest))"
    using False by (simp add: ansi_blueBright_def)
  also have "\<dots> = s @ strip_ansi ([CHR 0x1B] @ ''[39m'' @ rest)"
    using assms by (rule strip_ansi_plain)
  also have "\<dots> = s @ strip_ansi rest" by simp
  finally show ?thesis .
qed

text \<open>
  C2, as amended. For a range from line L1 to a later line L2, both within the file, a
  highlighter, and a way of taking the highlight marks out that passes text without marks
  through and takes the marks off a highlighted slice without marks (the lines of the file
  being without marks): the excerpt with its marks taken out is the lines L1 to L2 of the
  file one after the other, with nothing between them. Taking the ANSI colour codes out
  is such a way for the highlighter \<open>ansi_blueBright\<close>, on lines without escape
  characters (\<open>strip_ansi_plain\<close>, \<open>strip_ansi_marked\<close>).
\<close>

theorem excerpt_multiline_strip:
  assumes "1 \<le> line (start (location offset))"
    and "line (start (location offset)) < line (end' (location offset))"
    and "line (end' (location offset)) \<le> int (length sourceFile)"
    and empty: "strip [] = []"
    and plain: "\<forall>p rest. set p \<subseteq> A \<longrightarrow> strip (p @ rest) = p @ strip rest"
    and marked: "\<forall>s rest. set s \<subseteq> A \<longrightarrow> strip (c s @ rest) = s @ strip rest"
    and clean: "\<forall>l\<in>set sourceFile. set l \<subseteq> A"
  shows "map_sum id (strip \<circ> fst) (getSource c offset (Some sourceFile))
           = Inr (concat (file_lines sourceFile (line (start (location offset)))
                            (line (end' (location offset)))))"
proof -
  let ?l1 = "line (start (location offset))" and ?l2 = "line (end' (location offset))"
  let ?s = "column (start (location offset))" and ?e = "column (end' (location offset))"
  let ?ls = "slice sourceFile (?l1 - 1) ?l2"
  have ls: "?ls = file_lines sourceFile ?l1 ?l2"
    using assms(1-3) by (intro slice_file_lines) simp_all
  have "length (file_lines sourceFile ?l1 ?l2) = Suc (nat ?l2) - nat ?l1"
    by (simp add: file_lines_def del: upt_Suc)
  then have "2 \<le> length ?ls" using assms(1,2) ls by simp
  then obtain l0 xs where cons: "?ls = l0 # xs" and ne: "xs \<noteq> []"
    by (cases ?ls; cases "tl ?ls") auto
  have sub: "set ?ls \<subseteq> set sourceFile" by (rule set_slice)
  have inA: "set l \<subseteq> A" if "l \<in> set ?ls" for l
    using that sub clean by blast
  have l0: "set l0 \<subseteq> A" using inA cons by simp
  have lastA: "set (last xs) \<subseteq> A" using inA[of "last xs"] cons ne by simp
  have midA: "\<forall>m\<in>set (butlast xs). set m \<subseteq> A"
    using inA cons by (auto dest: in_set_butlastD)
  let ?p0 = "slice l0 0 ?s" and ?h1 = "slice_from l0 ?s"
  let ?hk = "slice (last xs) 0 ?e" and ?pk = "slice_from (last xs) ?e"
  have p0: "set ?p0 \<subseteq> A" using set_slice[of l0 0 ?s] l0 by blast
  have h1: "set ?h1 \<subseteq> A" using set_slice_from[of l0 ?s] l0 by blast
  have hk: "set ?hk \<subseteq> A" using set_slice[of "last xs" 0 ?e] lastA by blast
  have pk: "set ?pk \<subseteq> A" using set_slice_from[of "last xs" ?e] lastA by blast
  have ex: "foldl (excerpt_step c (length ?ls) ?s ?e) [] (zip [0 ..< length ?ls] ?ls)
      = ?p0 @ c ?h1 @ concat (map c (butlast xs)) @ c ?hk @ ?pk"
    unfolding cons using ne by (rule excerpt_multiline)
  have "strip ?pk = ?pk"
    using plain[rule_format, OF pk, of "[]"] empty by simp
  then have "strip (c ?hk @ ?pk) = ?hk @ ?pk"
    using marked[rule_format, OF hk, of ?pk] by simp
  then have "strip (concat (map c (butlast xs)) @ c ?hk @ ?pk)
      = concat (butlast xs) @ ?hk @ ?pk"
    using strip_marked_list[OF marked midA, of "c ?hk @ ?pk"] by simp
  then have "strip (c ?h1 @ concat (map c (butlast xs)) @ c ?hk @ ?pk)
      = ?h1 @ concat (butlast xs) @ ?hk @ ?pk"
    using marked[rule_format, OF h1, of "concat (map c (butlast xs)) @ c ?hk @ ?pk"] by simp
  then have "strip (?p0 @ c ?h1 @ concat (map c (butlast xs)) @ c ?hk @ ?pk)
      = ?p0 @ ?h1 @ concat (butlast xs) @ ?hk @ ?pk"
    using plain[rule_format, OF p0, of "c ?h1 @ concat (map c (butlast xs)) @ c ?hk @ ?pk"]
    by simp
  also have "\<dots> = (?p0 @ ?h1) @ concat (butlast xs) @ (?hk @ ?pk)" by simp
  also have "\<dots> = l0 @ concat (butlast xs) @ last xs" by (simp only: slice_split)
  also have "\<dots> = concat (l0 # butlast xs @ [last xs])" by simp
  also have "\<dots> = concat ?ls" using cons ne by simp
  finally have "strip (foldl (excerpt_step c (length ?ls) ?s ?e) [] (zip [0 ..< length ?ls] ?ls))
      = concat (file_lines sourceFile ?l1 ?l2)"
    using ex ls by simp
  then show ?thesis by (simp add: getSource_def Let_def)
qed

theorem excerpt_multiline_strip_witness:
  "map_sum id (strip_ansi \<circ> fst)
     (getSource ansi_blueBright (mk_range ''A.sol'' 1 9 2 6) (Some demo_file))
     = Inr ''contract A {  uint x;''"
proof -
  have h1: "1 \<le> line (start (location (mk_range ''A.sol'' 1 9 2 6)))"
    and h2: "line (start (location (mk_range ''A.sol'' 1 9 2 6)))
               < line (end' (location (mk_range ''A.sol'' 1 9 2 6)))"
    and h3: "line (end' (location (mk_range ''A.sol'' 1 9 2 6))) \<le> int (length demo_file)"
    by (simp_all add: mk_range_def demo_file_def)
  have h4: "strip_ansi [] = []" by simp
  have h5: "\<forall>p rest. set p \<subseteq> {ch. ch \<noteq> CHR 0x1B} \<longrightarrow>
      strip_ansi (p @ rest) = p @ strip_ansi rest"
    by (simp add: strip_ansi_plain)
  have h6: "\<forall>s rest. set s \<subseteq> {ch. ch \<noteq> CHR 0x1B} \<longrightarrow>
      strip_ansi (ansi_blueBright s @ rest) = s @ strip_ansi rest"
    by (simp add: strip_ansi_marked)
  have h7: "\<forall>l\<in>set demo_file. set l \<subseteq> {ch. ch \<noteq> CHR 0x1B}"
    by (simp add: demo_file_def)
  have v: "concat (file_lines demo_file (line (start (location (mk_range ''A.sol'' 1 9 2 6))))
             (line (end' (location (mk_range ''A.sol'' 1 9 2 6)))))
           = ''contract A {  uint x;''"
    by (simp add: mk_range_def file_lines_def demo_file_def numeral_3_eq_3)
  show ?thesis
    using excerpt_multiline_strip[where offset = "mk_range ''A.sol'' 1 9 2 6"
        and sourceFile = demo_file and strip = strip_ansi and c = ansi_blueBright
        and A = "{ch. ch \<noteq> CHR 0x1B}", OF h1 h2 h3 h4 h5 h6 h7]
    by (simp only: v)
qed

text \<open>
  C2, as stated, fails: the excerpt of the range from line 1, column 1 to line 2, column 1
  of the file of the two lines \<^verbatim>\<open>ab\<close> and \<^verbatim>\<open>cd\<close>, with its colour codes taken
  out, is \<^verbatim>\<open>abcd\<close>; the two lines put together with a line break are another
  string. The excerpt has no line break to tell where a line ends.
\<close>

theorem excerpt_multiline_counterexample:
  "map_sum id (strip_ansi \<circ> fst)
     (getSource ansi_blueBright (mk_range ''A'' 1 1 2 1) (Some [''ab'', ''cd''])) = Inr ''abcd''
   \<and> join_lines (file_lines [''ab'', ''cd''] 1 2) = ''ab'' @ [CHR 0x0A] @ ''cd''
   \<and> map_sum id (strip_ansi \<circ> fst)
       (getSource ansi_blueBright (mk_range ''A'' 1 1 2 1) (Some [''ab'', ''cd'']))
     \<noteq> Inr (join_lines (file_lines [''ab'', ''cd''] 1 2))"
  by (simp add: getSource_def mk_range_def Let_def slice_def slice_from_def js_index_def
      excerpt_step_def ansi_blueBright_def file_lines_def numeral_3_eq_3)

end
